theory Spec2Isabelle
  imports Complex_Main "HOL-Library.AList"
begin

section \<open>Numbers and text as the Python script sees them\<close>

text \<open>
  The script \<^verbatim>\<open>akmax_solver.py\<close> reads an edge list, totals the edge weights, hands an
  Ising model to an external solver and writes two files. Its numbers are Python floats.
  A float is modelled by the value it denotes: a finite float is an exact rational
  (binary64 rounding and overflow are not modelled, and \<open>-0.0\<close> is \<open>0.0\<close>), and the
  three special values that \<^verbatim>\<open>float()\<close> can return are kept apart. Python's \<^verbatim>\<open>sum\<close>
  starts from the integer \<open>0\<close>; the model identifies it with \<open>0.0\<close>.
\<close>

datatype pyfloat = Finite rat | PosInf | NegInf | NaN

fun fadd :: "pyfloat \<Rightarrow> pyfloat \<Rightarrow> pyfloat" where
  "fadd (Finite a) (Finite b) = Finite (a + b)"
| "fadd NaN _ = NaN"
| "fadd _ NaN = NaN"
| "fadd PosInf NegInf = NaN"
| "fadd NegInf PosInf = NaN"
| "fadd PosInf _ = PosInf"
| "fadd _ PosInf = PosInf"
| "fadd NegInf _ = NegInf"
| "fadd _ NegInf = NegInf"

fun fneg :: "pyfloat \<Rightarrow> pyfloat" where
  "fneg (Finite a) = Finite (- a)"
| "fneg PosInf = NegInf"
| "fneg NegInf = PosInf"
| "fneg NaN = NaN"

definition fsub :: "pyfloat \<Rightarrow> pyfloat \<Rightarrow> pyfloat" where
  "fsub x y = fadd x (fneg y)"

text \<open>\<^verbatim>\<open>x / 2\<close>: the divisor is the constant 2, so no division by zero can be raised.\<close>

fun fhalf :: "pyfloat \<Rightarrow> pyfloat" where
  "fhalf (Finite a) = Finite (a / 2)"
| "fhalf x = x"

datatype py_error =
    FileNotFoundError
  | UnpackValueError
  | IntValueError
  | FloatValueError
  | ExternalError

subsection \<open>\<^verbatim>\<open>str.strip\<close>, \<^verbatim>\<open>str.split(',')\<close>, \<^verbatim>\<open>int\<close> and \<^verbatim>\<open>float\<close> on ASCII text\<close>

text \<open>
  The characters of the ASCII range that Python's \<^verbatim>\<open>str.isspace\<close> accepts, which
  \<^verbatim>\<open>str.strip\<close> removes: tab, line feed, vertical tab, form feed, carriage return, the
  four separators \<open>0x1C\<close> to \<open>0x1F\<close>, and the space.
\<close>

definition is_space :: "char \<Rightarrow> bool" where
  "is_space c \<longleftrightarrow>
     c \<in> set [CHR 0x09, CHR 0x0A, CHR 0x0B, CHR 0x0C, CHR 0x0D,
               CHR 0x1C, CHR 0x1D, CHR 0x1E, CHR 0x1F, CHR 0x20]"

definition strip :: "string \<Rightarrow> string" where
  "strip s = rev (dropWhile is_space (rev (dropWhile is_space s)))"

text \<open>
  \<^verbatim>\<open>int\<close> and \<^verbatim>\<open>float\<close> skip less on ASCII text: only what C's \<^verbatim>\<open>isspace\<close> accepts,
  which leaves the four separators out. So \<^verbatim>\<open>int\<close> refuses a field that begins with
  the character \<open>0x1C\<close>, although \<^verbatim>\<open>str.strip\<close> would remove it.
\<close>

definition is_c_space :: "char \<Rightarrow> bool" where
  "is_c_space c \<longleftrightarrow> c \<in> set [CHR 0x09, CHR 0x0A, CHR 0x0B, CHR 0x0C, CHR 0x0D, CHR 0x20]"

definition c_strip :: "string \<Rightarrow> string" where
  "c_strip s = rev (dropWhile is_c_space (rev (dropWhile is_c_space s)))"

text \<open>
  \<^verbatim>\<open>s.split(',')\<close>: the fields between the commas, empty fields kept; a string with no
  comma is one field.
\<close>

fun split_comma :: "string \<Rightarrow> string list" where
  "split_comma [] = [[]]"
| "split_comma (c # cs) =
     (if c = CHR '','' then [] # split_comma cs
      else (case split_comma cs of
              f # fs \<Rightarrow> (c # f) # fs
            | [] \<Rightarrow> [[c]]))"

definition is_digit :: "char \<Rightarrow> bool" where
  "is_digit c \<longleftrightarrow> c \<in> set ''0123456789''"

definition digit_val :: "char \<Rightarrow> nat" where
  "digit_val c = of_char c - 48"

text \<open>
  A digit part is one digit followed by digits, each optionally preceded by a single
  underscore. \<open>digits_from acc n s\<close> reads such a run to its end and returns the number
  read, the count of digits, and the rest of the text.
\<close>

fun digits_from :: "nat \<Rightarrow> nat \<Rightarrow> string \<Rightarrow> nat \<times> nat \<times> string" where
  "digits_from acc n [] = (acc, n, [])"
| "digits_from acc n [c] =
     (if is_digit c then (acc * 10 + digit_val c, Suc n, []) else (acc, n, [c]))"
| "digits_from acc n (c # d # cs) =
     (if is_digit c then digits_from (acc * 10 + digit_val c) (Suc n) (d # cs)
      else if c = CHR ''_'' \<and> is_digit d
        then digits_from (acc * 10 + digit_val d) (Suc n) cs
      else (acc, n, c # d # cs))"

definition digitpart :: "string \<Rightarrow> (nat \<times> nat \<times> string) option" where
  "digitpart s =
     (case s of
        [] \<Rightarrow> None
      | c # cs \<Rightarrow> if is_digit c then Some (digits_from (digit_val c) 1 cs) else None)"

definition sign_of :: "string \<Rightarrow> bool \<times> string" where
  "sign_of s =
     (case s of
        [] \<Rightarrow> (False, [])
      | c # cs \<Rightarrow>
          if c = CHR ''-'' then (True, cs)
          else if c = CHR ''+'' then (False, cs)
          else (False, s))"

text \<open>
  \<^verbatim>\<open>int(s)\<close> in base 10: surrounding C whitespace is skipped, then come an optional
  sign and one digit part up to the end. The interpreter refuses a text of more digits
  than its limit, which is 4300 unless it is configured otherwise. \<open>None\<close> is the
  \<^verbatim>\<open>ValueError\<close>.
\<close>

definition int_max_str_digits :: nat where
  "int_max_str_digits = 4300"

definition py_int :: "string \<Rightarrow> int option" where
  "py_int s =
     (case sign_of (c_strip s) of
        (neg, t) \<Rightarrow>
          (case digitpart t of
             Some (v, n, []) \<Rightarrow>
               if int_max_str_digits < n then None
               else Some (if neg then - int v else int v)
           | _ \<Rightarrow> None))"

text \<open>
  \<^verbatim>\<open>float(s)\<close>: surrounding C whitespace is skipped, then an optional sign and either one of
  the words \<^verbatim>\<open>inf\<close>, \<^verbatim>\<open>infinity\<close>, \<^verbatim>\<open>nan\<close> in any letter case, or a decimal number:
  digits with an optional fraction, or a point followed by digits, then an optional
  exponent. \<open>None\<close> is the \<^verbatim>\<open>ValueError\<close>.
\<close>

definition lower :: "char \<Rightarrow> char" where
  "lower c =
     (let n = (of_char c :: nat) in if 65 \<le> n \<and> n \<le> 90 then char_of (n + 32) else c)"

definition exponent :: "string \<Rightarrow> int option" where
  "exponent s =
     (case s of
        [] \<Rightarrow> Some 0
      | c # cs \<Rightarrow>
          if lower c = CHR ''e'' then
            (case sign_of cs of
               (neg, t) \<Rightarrow>
                 (case digitpart t of
                    Some (v, _, []) \<Rightarrow> Some (if neg then - int v else int v)
                  | _ \<Rightarrow> None))
          else None)"

definition scale10 :: "rat \<Rightarrow> int \<Rightarrow> rat" where
  "scale10 m e = (if 0 \<le> e then m * 10 ^ nat e else m / 10 ^ nat (- e))"

definition decimal :: "string \<Rightarrow> rat option" where
  "decimal s =
     (case digitpart s of
        Some (ip, _, r) \<Rightarrow>
          (case r of
             c # r' \<Rightarrow>
               if c = CHR ''.'' then
                 (case digitpart r' of
                    Some (fp, n, r'') \<Rightarrow>
                      map_option (scale10 (of_nat ip + of_nat fp / 10 ^ n)) (exponent r'')
                  | None \<Rightarrow> map_option (scale10 (of_nat ip)) (exponent r'))
               else map_option (scale10 (of_nat ip)) (exponent r)
           | [] \<Rightarrow> Some (of_nat ip))
      | None \<Rightarrow>
          (case s of
             c # r' \<Rightarrow>
               if c = CHR ''.'' then
                 (case digitpart r' of
                    Some (fp, n, r'') \<Rightarrow>
                      map_option (scale10 (of_nat fp / 10 ^ n)) (exponent r'')
                  | None \<Rightarrow> None)
               else None
           | [] \<Rightarrow> None))"

definition py_float :: "string \<Rightarrow> pyfloat option" where
  "py_float s =
     (case sign_of (c_strip s) of
        (neg, t) \<Rightarrow>
          (let w = map lower t in
           if w = ''inf'' \<or> w = ''infinity'' then Some (if neg then NegInf else PosInf)
           else if w = ''nan'' then Some NaN
           else map_option (\<lambda>q. Finite (if neg then - q else q)) (decimal t)))"

section \<open>The graph, as \<^verbatim>\<open>networkx.Graph\<close> keeps it\<close>

text \<open>
  \<^verbatim>\<open>nx.Graph\<close> stores a dictionary from each node to the dictionary of its neighbours,
  and every undirected edge sits in it twice, once under each end. Python dictionaries
  keep insertion order and assigning to a key that is present keeps its place, so both
  levels are association lists. The only edge attribute this script sets before reading
  the edges back is \<^verbatim>\<open>weight\<close>; the later copy of it under \<^verbatim>\<open>quadratic\<close> is the coupling
  of the model.
\<close>

type_synonym node = int

type_synonym graph = "(node \<times> (node \<times> pyfloat) list) list"

definition add_node :: "node \<Rightarrow> graph \<Rightarrow> graph" where
  "add_node u G = (if u \<in> set (map fst G) then G else G @ [(u, [])])"

definition set_adj :: "node \<Rightarrow> node \<Rightarrow> pyfloat \<Rightarrow> graph \<Rightarrow> graph" where
  "set_adj u v w G = AList.map_entry u (AList.update v w) G"

text \<open>
  \<^verbatim>\<open>G.add_edge(u, v, weight=w)\<close>: both ends become nodes when they are not yet, then
  \<^verbatim>\<open>_adj[u][v]\<close> and \<^verbatim>\<open>_adj[v][u]\<close> are set.
\<close>

definition add_edge :: "node \<Rightarrow> node \<Rightarrow> pyfloat \<Rightarrow> graph \<Rightarrow> graph" where
  "add_edge u v w G = set_adj v u w (set_adj u v w (add_node v (add_node u G)))"

text \<open>
  \<^verbatim>\<open>G.edges(data=True)\<close>: the nodes in order, for each its neighbours in order, leaving
  out a neighbour that was already visited as a node.
\<close>

fun edges_from :: "node list \<Rightarrow> graph \<Rightarrow> (node \<times> node \<times> pyfloat) list" where
  "edges_from seen [] = []"
| "edges_from seen ((n, nbrs) # rest) =
     map (\<lambda>(nbr, w). (n, nbr, w)) (filter (\<lambda>(nbr, w). nbr \<notin> set seen) nbrs)
       @ edges_from (n # seen) rest"

definition edges :: "graph \<Rightarrow> (node \<times> node \<times> pyfloat) list" where
  "edges G = edges_from [] G"

section \<open>\<^verbatim>\<open>load_graph\<close>\<close>

text \<open>
  The files of the run are named by the parameters they are formatted from; the
  directories are fixed by the script. A file system gives the lines of a file, in the
  order in which iterating over the open file yields them, or nothing when it cannot
  be opened.
\<close>

datatype path =
    GraphFile int int int int
  | SumweightsFile int int int int
  | AkmaxdataFile int int int int bool

type_synonym filesystem = "path \<Rightarrow> string list option"

text \<open>
  One pass of the loop body up to the call of \<^verbatim>\<open>add_edge\<close>: the unpacking of the three
  fields, \<^verbatim>\<open>int\<close> on both node fields, and \<^verbatim>\<open>float\<close> on the weight field only when
  \<^verbatim>\<open>weighted\<close> holds.
\<close>

definition parse_line :: "bool \<Rightarrow> string \<Rightarrow> py_error + (node \<times> node \<times> pyfloat)" where
  "parse_line weighted line =
     (case split_comma (strip line) of
        [weight_str, node1_str, node2_str] \<Rightarrow>
          (case py_int node1_str of
             None \<Rightarrow> Inl IntValueError
           | Some node1 \<Rightarrow>
               (case py_int node2_str of
                  None \<Rightarrow> Inl IntValueError
                | Some node2 \<Rightarrow>
                    if weighted then
                      (case py_float weight_str of
                         None \<Rightarrow> Inl FloatValueError
                       | Some weight \<Rightarrow> Inr (node1, node2, weight))
                    else Inr (node1, node2, Finite 1)))
      | _ \<Rightarrow> Inl UnpackValueError)"

fun read_lines :: "bool \<Rightarrow> graph \<Rightarrow> string list \<Rightarrow> py_error + graph" where
  "read_lines weighted G [] = Inr G"
| "read_lines weighted G (line # rest) =
     (case parse_line weighted line of
        Inl e \<Rightarrow> Inl e
      | Inr (node1, node2, weight) \<Rightarrow> read_lines weighted (add_edge node1 node2 weight G) rest)"

definition load_graph :: "filesystem \<Rightarrow> path \<Rightarrow> bool \<Rightarrow> py_error + graph" where
  "load_graph fs filepath weighted =
     (case fs filepath of
        None \<Rightarrow> Inl FileNotFoundError
      | Some file \<Rightarrow> read_lines weighted [] file)"

section \<open>\<^verbatim>\<open>run_solver\<close>\<close>

text \<open>
  A sample maps each variable to its value; \<^verbatim>\<open>energy_data\<close> is the list of samples
  with their energies, as \<^verbatim>\<open>sampleset.data\<close> lists them. Building the model with
  \<^verbatim>\<open>dimod\<close>, solving it and listing the answer are the work of external libraries:
  the run takes them as a parameter, which may raise.
\<close>

type_synonym sample = "(node \<times> int) list"

type_synonym energy_data = "(sample \<times> pyfloat) list"

record bqm =
  variables :: "node list"
  quadratic :: "(node \<times> node \<times> pyfloat) list"

definition from_networkx_graph :: "graph \<Rightarrow> bqm" where
  "from_networkx_graph G = \<lparr>variables = map fst G, quadratic = edges G\<rparr>"

datatype json_value = JInt int | JBool bool | JFloat pyfloat | JStr string

text \<open>
  What a written file holds: the text of \<^verbatim>\<open>str(W)\<close> and a newline, or the dictionary
  given to \<^verbatim>\<open>json.dump\<close>. What is printed: one constructor for each \<^verbatim>\<open>print\<close> of the
  script.
\<close>

datatype content = Text pyfloat | Json "(string \<times> json_value) list"

datatype message =
    SavedW pyfloat path
  | NumSamples nat
  | ShowS0 "node list"
  | ShowS1 "node list"
  | ShowEnergy pyfloat
  | ShowCut pyfloat
  | Dashes
  | Saving path
  | Saved
  | NothingToSave

record outcome =
  files :: "(path \<times> content) list"
  console :: "message list"
  raised :: "py_error option"

definition total_weight :: "graph \<Rightarrow> pyfloat" where
  "total_weight G = foldl fadd (Finite 0) (map (\<lambda>(u, v, w). w) (edges G))"

definition cut_value :: "pyfloat \<Rightarrow> pyfloat \<Rightarrow> pyfloat" where
  "cut_value W E = fhalf (fsub W E)"

definition S0_of :: "sample \<Rightarrow> node list" where
  "S0_of sample = [node. (node, val) \<leftarrow> sample, val = - 1]"

definition S1_of :: "sample \<Rightarrow> node list" where
  "S1_of sample = [node. (node, val) \<leftarrow> sample, val = 1]"

text \<open>The body of the loop that prints every solution.\<close>

definition report :: "pyfloat \<Rightarrow> sample \<times> pyfloat \<Rightarrow> message list" where
  "report W se =
     (case se of
        (sample, E) \<Rightarrow>
          [ShowS0 (S0_of sample), ShowS1 (S1_of sample), ShowEnergy E,
           ShowCut (cut_value W E), Dashes])"

definition savedict ::
  "int \<Rightarrow> int \<Rightarrow> int \<Rightarrow> bool \<Rightarrow> pyfloat \<Rightarrow> pyfloat \<Rightarrow> pyfloat \<Rightarrow> (string \<times> json_value) list" where
  "savedict N k seed weighted W first_energy first_cut =
     [(''N'', JInt N),
      (''k'', JInt k),
      (''seed'', JInt seed),
      (''weighted'', JBool weighted),
      (''W'', JFloat W),
      (''ising_energy'', JFloat first_energy),
      (''maxcut_value'', JFloat first_cut),
      (''method'', JStr ''AKMaxSAT'')]"

definition run_solver ::
  "filesystem \<Rightarrow> (bqm \<Rightarrow> py_error + energy_data) \<Rightarrow> int \<Rightarrow> int \<Rightarrow> int \<Rightarrow> bool \<Rightarrow> outcome" where
  "run_solver fs solver N k seed weighted =
     (let seedb = seed;
          filepath = GraphFile N k seed seedb
      in case load_graph fs filepath weighted of
           Inl e \<Rightarrow> \<lparr>files = [], console = [], raised = Some e\<rparr>
         | Inr G \<Rightarrow>
             (let W = total_weight G;
                  sumweights_file = SumweightsFile N k seed seedb;
                  files1 = [(sumweights_file, Text W)];
                  console1 = [SavedW W sumweights_file]
              in case solver (from_networkx_graph G) of
                   Inl e \<Rightarrow> \<lparr>files = files1, console = console1, raised = Some e\<rparr>
                 | Inr energy_data \<Rightarrow>
                     (let console2 =
                            console1 @ [NumSamples (length energy_data)]
                              @ concat (map (report W) energy_data)
                      in case energy_data of
                           (sample, first_energy) # rest \<Rightarrow>
                             (let first_cut = cut_value W first_energy;
                                  out_file = AkmaxdataFile N k seed seedb weighted
                              in \<lparr>files =
                                     files1 @
                                       [(out_file,
                                         Json (savedict N k seed weighted W first_energy first_cut))],
                                   console = console2 @ [Saving out_file, Saved],
                                   raised = None\<rparr>)
                         | [] \<Rightarrow>
                             \<lparr>files = files1,
                              console = console2 @ [NothingToSave],
                              raised = None\<rparr>)))"

section \<open>Notions used to state the properties\<close>

text \<open>The cut values printed by a run, in the order of printing.\<close>

fun shown_cuts :: "message list \<Rightarrow> pyfloat list" where
  "shown_cuts [] = []"
| "shown_cuts (ShowCut c # ms) = c # shown_cuts ms"
| "shown_cuts (m # ms) = shown_cuts ms"

text \<open>
  The edges that the lines of a file describe, in the order of the lines, or the error of
  the first line that \<^verbatim>\<open>load_graph\<close> cannot read; and the graph that adding them one after
  the other builds.
\<close>

fun parse_all :: "bool \<Rightarrow> string list \<Rightarrow> py_error + (node \<times> node \<times> pyfloat) list" where
  "parse_all weighted [] = Inr []"
| "parse_all weighted (line # rest) =
     (case parse_line weighted line of
        Inl e \<Rightarrow> Inl e
      | Inr edge \<Rightarrow>
          (case parse_all weighted rest of
             Inl e \<Rightarrow> Inl e
           | Inr es \<Rightarrow> Inr (edge # es)))"

definition add_edges :: "graph \<Rightarrow> (node \<times> node \<times> pyfloat) list \<Rightarrow> graph" where
  "add_edges G es = foldl (\<lambda>H (u, v, w). add_edge u v w H) G es"

text \<open>An edge is undirected: it is the set of its two ends (one end for a self-loop).\<close>

definition upair :: "node \<times> node \<times> pyfloat \<Rightarrow> node set" where
  "upair e = (case e of (u, v, w) \<Rightarrow> {u, v})"

definition same_edge :: "node \<Rightarrow> node \<Rightarrow> node \<times> node \<times> pyfloat \<Rightarrow> bool" where
  "same_edge u v e = (case e of (a, b, w) \<Rightarrow> (a = u \<and> b = v) \<or> (a = v \<and> b = u))"

text \<open>The weight on the last line read for the edge between \<open>u\<close> and \<open>v\<close>, if any.\<close>

definition last_weight :: "node \<Rightarrow> node \<Rightarrow> (node \<times> node \<times> pyfloat) list \<Rightarrow> pyfloat option" where
  "last_weight u v es =
     (case filter (same_edge u v) es of
        [] \<Rightarrow> None
      | x # xs \<Rightarrow> Some (snd (snd (last (x # xs)))))"

text \<open>The weight stored for \<open>v\<close> among the neighbours of \<open>u\<close>.\<close>

definition wt :: "graph \<Rightarrow> node \<Rightarrow> node \<Rightarrow> pyfloat option" where
  "wt G u v = (case map_of G u of None \<Rightarrow> None | Some nbrs \<Rightarrow> map_of nbrs v)"

text \<open>
  What holds of every graph built by \<^verbatim>\<open>add_edge\<close>: no node and no neighbour is listed
  twice, and the two entries of an edge agree.
\<close>

definition wf_graph :: "graph \<Rightarrow> bool" where
  "wf_graph G \<longleftrightarrow>
     distinct (map fst G) \<and>
     (\<forall>n nbrs. map_of G n = Some nbrs \<longrightarrow> distinct (map fst nbrs)) \<and>
     (\<forall>u v. wt G u v = wt G v u)"


text \<open>
  A line that \<^verbatim>\<open>load_graph\<close> refuses: not three fields, a node field that is not an
  integer, or, in weighted mode only, a weight field that is not a number.
\<close>

definition refused_line :: "bool \<Rightarrow> string \<Rightarrow> bool" where
  "refused_line weighted line =
     (case split_comma (strip line) of
        [weight_str, node1_str, node2_str] \<Rightarrow>
          py_int node1_str = None \<or> py_int node2_str = None \<or>
          (weighted \<and> py_float weight_str = None)
      | _ \<Rightarrow> True)"

subsection \<open>The scenario of the specification\<close>

definition example_file :: "string list" where
  "example_file = [''1.0,0,1\<newline>'', ''2.0,1,2\<newline>'', ''1.5,0,2\<newline>'']"

definition example_fs :: filesystem where
  "example_fs p = (if p = GraphFile 10 3 2 2 then Some example_file else None)"

definition example_sample :: sample where
  "example_sample = [(0, - 1), (1, 1), (2, - 1)]"

definition example_solver :: "bqm \<Rightarrow> py_error + energy_data" where
  "example_solver b = Inr [(example_sample, Finite (- (9 / 2)))]"

definition example_graph :: graph where
  "example_graph =
     [(0, [(1, Finite 1), (2, Finite (3 / 2))]),
      (1, [(0, Finite 1), (2, Finite 2)]),
      (2, [(1, Finite 2), (0, Finite (3 / 2))])]"

text \<open>A sample in which node 0 carries the value 0, which is no spin.\<close>

definition stray_sample :: sample where
  "stray_sample = [(0, 0), (1, 1), (2, - 1)]"

definition stray_solver :: "bqm \<Rightarrow> py_error + energy_data" where
  "stray_solver b = Inr [(stray_sample, Finite 0)]"

text \<open>A file whose only line has a weight field that is no number.\<close>

definition odd_file :: "string list" where
  "odd_file = [''abc,0,1\<newline>'']"

definition odd_fs :: filesystem where
  "odd_fs p = (if p = GraphFile 10 3 2 2 then Some odd_file else None)"

text \<open>A file that names the edge between 0 and 1 twice, the second time reversed.\<close>

definition twice_file :: "string list" where
  "twice_file = [''1.0,0,1\<newline>'', ''2.0,1,2\<newline>'', ''7.5,1,0\<newline>'']"

definition twice_fs :: filesystem where
  "twice_fs p = (if p = GraphFile 10 3 2 2 then Some twice_file else None)"

definition empty_solver :: "bqm \<Rightarrow> py_error + energy_data" where
  "empty_solver b = Inr []"

section \<open>Facts about the graph\<close>

subsection \<open>Adding an edge\<close>

lemma map_of_keys: "map_of G a = Some x \<Longrightarrow> a \<in> fst ` set G"
  by (induction G) (auto split: if_splits)

lemma wt_add_node: "wt (add_node u G) a b = wt G a b"
proof (cases "map_of G a")
  case None
  then show ?thesis
    by (auto simp: wt_def add_node_def map_add_def split: option.splits)
next
  case (Some x)
  then show ?thesis
    by (auto simp: wt_def add_node_def map_add_def split: option.splits)
qed

lemma keys_add_node: "fst ` set (add_node u G) = insert u (fst ` set G)"
  by (auto simp: add_node_def)

lemma keys_set_adj: "fst ` set (set_adj u v w G) = fst ` set G"
  by (simp add: set_adj_def AList.dom_map_entry)

lemma wt_set_adj:
  "wt (set_adj u v w G) a b =
     (if a = u \<and> b = v \<and> u \<in> fst ` set G then Some w else wt G a b)"
proof (cases "map_of G u")
  case None
  then have "u \<notin> fst ` set G"
    by (simp add: map_of_eq_None_iff)
  with None show ?thesis
    by (auto simp: wt_def set_adj_def AList.map_of_map_entry split: option.splits)
next
  case (Some x)
  then have "u \<in> fst ` set G"
    by (rule map_of_keys)
  with Some show ?thesis
    by (simp add: wt_def set_adj_def AList.map_of_map_entry AList.update_conv' split: option.splits)
qed

lemma wt_add_edge:
  "wt (add_edge u v w G) a b =
     (if (a = u \<and> b = v) \<or> (a = v \<and> b = u) then Some w else wt G a b)"
proof -
  let ?H = "add_node v (add_node u G)"
  have ku: "u \<in> fst ` set ?H" and kv: "v \<in> fst ` set (set_adj u v w ?H)"
    by (simp_all add: keys_set_adj keys_add_node)
  have "wt (add_edge u v w G) a b =
          (if a = v \<and> b = u then Some w else wt (set_adj u v w ?H) a b)"
    unfolding add_edge_def using kv by (simp only: wt_set_adj if_True simp_thms)
  also have "wt (set_adj u v w ?H) a b = (if a = u \<and> b = v then Some w else wt G a b)"
    using ku by (simp only: wt_set_adj wt_add_node if_True simp_thms)
  finally show ?thesis
    by argo
qed

lemma distinct_add_node: "distinct (map fst G) \<Longrightarrow> distinct (map fst (add_node u G))"
  by (auto simp: add_node_def)

lemma distinct_set_adj: "distinct (map fst G) \<Longrightarrow> distinct (map fst (set_adj u v w G))"
  by (simp add: set_adj_def AList.distinct_map_entry)

lemma inner_add_node:
  "map_of (add_node u G) n = Some nbrs \<Longrightarrow>
     map_of G n = Some nbrs \<or> nbrs = []"
  by (auto simp: add_node_def map_add_Some_iff split: if_splits)

lemma inner_set_adj:
  "map_of (set_adj u v w G) n = Some nbrs \<Longrightarrow>
     map_of G n = Some nbrs \<or> (\<exists>old. map_of G n = Some old \<and> nbrs = AList.update v w old)"
  by (auto simp: set_adj_def AList.map_of_map_entry split: if_splits option.splits)

lemma wf_graph_Nil: "wf_graph []"
  by (simp add: wf_graph_def wt_def)

lemma wf_graph_add_edge:
  assumes "wf_graph G"
  shows "wf_graph (add_edge u v w G)"
proof -
  have d: "distinct (map fst (add_edge u v w G))"
    using assms by (simp add: wf_graph_def add_edge_def distinct_set_adj distinct_add_node)
  have i: "distinct (map fst nbrs)" if "map_of (add_edge u v w G) n = Some nbrs" for n nbrs
    using that assms unfolding add_edge_def wf_graph_def
    by (auto dest!: inner_set_adj inner_add_node simp: AList.distinct_update)
  have s: "wt (add_edge u v w G) a b = wt (add_edge u v w G) b a" for a b
    using assms by (auto simp: wt_add_edge wf_graph_def)
  show ?thesis
    unfolding wf_graph_def using d i s by blast
qed


subsection \<open>Reading the edges back\<close>

lemma edges_from_sound:
  "(n, x, w) \<in> set (edges_from seen G) \<Longrightarrow>
     \<exists>nbrs. (n, nbrs) \<in> set G \<and> (x, w) \<in> set nbrs \<and> x \<notin> set seen"
  by (induction seen G rule: edges_from.induct) auto

lemma edges_from_complete:
  assumes "distinct (map fst G)"
    and "set seen \<inter> fst ` set G = {}"
    and "\<forall>n nbrs x w. (n, nbrs) \<in> set G \<longrightarrow> (x, w) \<in> set nbrs \<longrightarrow>
           x \<in> set seen \<or> (\<exists>nbrs'. (x, nbrs') \<in> set G \<and> (n, w) \<in> set nbrs')"
    and "(n, nbrs) \<in> set G" and "(x, w) \<in> set nbrs" and "x \<notin> set seen"
  shows "(n, x, w) \<in> set (edges_from seen G) \<or> (x, n, w) \<in> set (edges_from seen G)"
  using assms
proof (induction seen G rule: edges_from.induct)
  case (1 seen)
  then show ?case by simp
next
  case (2 seen m mb rest)
  show ?case
  proof (cases "n = m")
    case True
    with "2.prems"(1,4) have "nbrs = mb"
      by (auto simp: image_iff)
    with True "2.prems"(5,6) show ?thesis
      by force
  next
    case nm: False
    with "2.prems"(4) have nrest: "(n, nbrs) \<in> set rest"
      by simp
    show ?thesis
    proof (cases "x = m")
      case True
      from "2.prems"(3,4,5,6)
      obtain nbrs' where h: "(x, nbrs') \<in> set ((m, mb) # rest)" "(n, w) \<in> set nbrs'"
        by blast
      from h(1) True "2.prems"(1) have "nbrs' = mb"
        by (auto simp: image_iff)
      moreover have "n \<in> fst ` set ((m, mb) # rest)"
        using "2.prems"(4) by force
      with "2.prems"(2) have "n \<notin> set seen"
        by blast
      ultimately show ?thesis
        using h(2) True by force
    next
      case xm: False
      have d: "distinct (map fst rest)"
        using "2.prems"(1) by simp
      have j: "set (m # seen) \<inter> fst ` set rest = {}"
        using "2.prems"(1,2) by (auto simp: image_iff)
      have sym: "\<forall>n' nbrs' x' w'. (n', nbrs') \<in> set rest \<longrightarrow> (x', w') \<in> set nbrs' \<longrightarrow>
          x' \<in> set (m # seen) \<or> (\<exists>nbrs''. (x', nbrs'') \<in> set rest \<and> (n', w') \<in> set nbrs'')"
      proof (intro allI impI)
        fix n' nbrs' x' w'
        assume a: "(n', nbrs') \<in> set rest" "(x', w') \<in> set nbrs'"
        then have "(n', nbrs') \<in> set ((m, mb) # rest)"
          by simp
        with "2.prems"(3) a(2)
        have "x' \<in> set seen \<or> (\<exists>nbrs''. (x', nbrs'') \<in> set ((m, mb) # rest) \<and> (n', w') \<in> set nbrs'')"
          by blast
        then show "x' \<in> set (m # seen) \<or> (\<exists>nbrs''. (x', nbrs'') \<in> set rest \<and> (n', w') \<in> set nbrs'')"
          by auto
      qed
      have "x \<notin> set (m # seen)"
        using xm "2.prems"(6) by simp
      from "2.IH"[OF d j sym nrest "2.prems"(5) this] show ?thesis
        by auto
    qed
  qed
qed

lemma upair_head_distinct:
  assumes "distinct (map fst nbrs)"
  shows "distinct (map upair (map (\<lambda>(nbr, w). (n, nbr, w)) (filter P nbrs)))"
proof -
  have e: "map upair (map (\<lambda>(nbr, w). (n, nbr, w)) (filter P nbrs)) =
           map (\<lambda>x. {n, x}) (map fst (filter P nbrs))"
    by (simp add: upair_def case_prod_unfold comp_def)
  have "inj (\<lambda>x. {n, x})"
    by (auto simp: inj_def doubleton_eq_iff)
  then have "inj_on (\<lambda>x. {n, x}) (set (map fst (filter P nbrs)))"
    by (rule inj_on_subset) simp
  moreover have "distinct (map fst (filter P nbrs))"
    using assms by (rule distinct_map_filter)
  ultimately show ?thesis
    unfolding e by (simp only: distinct_map simp_thms)
qed

lemma edges_from_distinct:
  assumes "distinct (map fst G)"
    and "\<And>n nbrs. (n, nbrs) \<in> set G \<Longrightarrow> distinct (map fst nbrs)"
  shows "distinct (map upair (edges_from seen G))"
  using assms
proof (induction seen G rule: edges_from.induct)
  case (1 seen)
  then show ?case by simp
next
  case (2 seen m mb rest)
  have h: "distinct (map upair (map (\<lambda>(nbr, w). (m, nbr, w)) (filter (\<lambda>(nbr, w). nbr \<notin> set seen) mb)))"
    using "2.prems"(2)[of m mb] by (intro upair_head_distinct) simp
  have t: "distinct (map upair (edges_from (m # seen) rest))"
    using "2.prems" by (intro "2.IH") auto
  have c: "upair e \<noteq> upair e'"
    if ea: "e \<in> set (map (\<lambda>(nbr, w). (m, nbr, w)) (filter (\<lambda>(nbr, w). nbr \<notin> set seen) mb))"
      and eb: "e' \<in> set (edges_from (m # seen) rest)" for e e'
  proof -
    obtain y w where e: "e = (m, y, w)"
      using ea by (auto simp: case_prod_unfold)
    obtain n x w' where e': "e' = (n, x, w')"
      by (cases e')
    from eb[unfolded e'] obtain nbrs where "(n, nbrs) \<in> set rest" "x \<notin> set (m # seen)"
      by (blast dest: edges_from_sound)
    with "2.prems"(1) have "n \<noteq> m" "x \<noteq> m"
      by (auto simp: image_iff)
    then show ?thesis
      unfolding e e' upair_def by auto
  qed
  show ?case
    using h t c by (auto simp del: map_map simp: image_iff)
qed


lemma wt_iff:
  assumes "wf_graph G"
  shows "wt G a b = Some x \<longleftrightarrow> (\<exists>nbrs. (a, nbrs) \<in> set G \<and> (b, x) \<in> set nbrs)"
proof
  assume "wt G a b = Some x"
  then obtain nbrs where "map_of G a = Some nbrs" "map_of nbrs b = Some x"
    by (auto simp: wt_def split: option.splits)
  then show "\<exists>nbrs. (a, nbrs) \<in> set G \<and> (b, x) \<in> set nbrs"
    by (blast dest: map_of_SomeD)
next
  assume "\<exists>nbrs. (a, nbrs) \<in> set G \<and> (b, x) \<in> set nbrs"
  then obtain nbrs where h: "(a, nbrs) \<in> set G" "(b, x) \<in> set nbrs"
    by blast
  from h(1) assms have m: "map_of G a = Some nbrs"
    by (simp add: wf_graph_def)
  with assms have "distinct (map fst nbrs)"
    unfolding wf_graph_def by blast
  with h(2) have "map_of nbrs b = Some x"
    by simp
  with m show "wt G a b = Some x"
    by (simp add: wt_def)
qed

lemma wf_edges_wt:
  assumes "wf_graph G" and "(a, b, x) \<in> set (edges G)"
  shows "wt G a b = Some x"
  using assms(2) edges_from_sound[of a b x "[]" G] wt_iff[OF assms(1)]
  by (auto simp: edges_def)

lemma wf_wt_edges:
  assumes "wf_graph G" and "wt G a b = Some x"
  shows "(a, b, x) \<in> set (edges G) \<or> (b, a, x) \<in> set (edges G)"
proof -
  from assms obtain nbrs where h: "(a, nbrs) \<in> set G" "(b, x) \<in> set nbrs"
    by (auto simp: wt_iff)
  have sym: "\<forall>n nbrs y w. (n, nbrs) \<in> set G \<longrightarrow> (y, w) \<in> set nbrs \<longrightarrow>
      y \<in> set [] \<or> (\<exists>nbrs'. (y, nbrs') \<in> set G \<and> (n, w) \<in> set nbrs')"
  proof (intro allI impI)
    fix n nbrs y w
    assume "(n, nbrs) \<in> set G" "(y, w) \<in> set nbrs"
    then have "wt G n y = Some w"
      using wt_iff[OF assms(1)] by blast
    then have "wt G y n = Some w"
      using assms(1) by (simp add: wf_graph_def)
    then show "y \<in> set [] \<or> (\<exists>nbrs'. (y, nbrs') \<in> set G \<and> (n, w) \<in> set nbrs')"
      using wt_iff[OF assms(1)] by blast
  qed
  have "distinct (map fst G)"
    using assms(1) by (simp add: wf_graph_def)
  from edges_from_complete[OF this _ sym h] show ?thesis
    by (simp add: edges_def)
qed

lemma wf_edges_distinct:
  assumes "wf_graph G"
  shows "distinct (map upair (edges G))"
  unfolding edges_def
proof (rule edges_from_distinct)
  show "distinct (map fst G)"
    using assms by (simp add: wf_graph_def)
  fix n nbrs
  assume "(n, nbrs) \<in> set G"
  with assms have "map_of G n = Some nbrs"
    by (simp add: wf_graph_def)
  with assms show "distinct (map fst nbrs)"
    unfolding wf_graph_def by blast
qed

subsection \<open>Adding the edges of a file\<close>

lemma add_edges_Cons: "add_edges G ((u, v, w) # es) = add_edges (add_edge u v w G) es"
  by (simp add: add_edges_def)

lemma add_edges_Nil: "add_edges G [] = G"
  by (simp add: add_edges_def)

lemma wf_add_edges: "wf_graph G \<Longrightarrow> wf_graph (add_edges G es)"
proof (induction es arbitrary: G)
  case Nil
  then show ?case by (simp add: add_edges_Nil)
next
  case (Cons e es)
  obtain u v w where e: "e = (u, v, w)" by (cases e)
  show ?case
    unfolding e add_edges_Cons using Cons.prems by (intro Cons.IH wf_graph_add_edge)
qed

lemma last_weight_Nil: "last_weight a b [] = None"
  by (simp add: last_weight_def)

lemma last_weight_Cons:
  "last_weight a b ((u, v, w) # es) =
     (case last_weight a b es of
        Some x \<Rightarrow> Some x
      | None \<Rightarrow> if (u = a \<and> v = b) \<or> (u = b \<and> v = a) then Some w else None)"
  by (cases "filter (same_edge a b) es") (simp_all add: last_weight_def same_edge_def)

lemma wt_add_edges:
  "wt (add_edges G es) a b =
     (case last_weight a b es of None \<Rightarrow> wt G a b | Some x \<Rightarrow> Some x)"
proof (induction es arbitrary: G)
  case Nil
  then show ?case by (simp add: add_edges_Nil last_weight_Nil)
next
  case (Cons e es)
  obtain u v w where e: "e = (u, v, w)" by (cases e)
  show ?case
    unfolding e add_edges_Cons Cons.IH last_weight_Cons wt_add_edge
    by (cases "last_weight a b es") (simp_all only: option.case if_True if_False split: if_splits, argo+)
qed

lemma read_lines_parse_all:
  "read_lines weighted G ls =
     (case parse_all weighted ls of Inl e \<Rightarrow> Inl e | Inr es \<Rightarrow> Inr (add_edges G es))"
proof (induction ls arbitrary: G)
  case Nil
  then show ?case by (simp add: add_edges_Nil)
next
  case (Cons l ls)
  then show ?case
    by (auto simp: add_edges_Cons split: sum.splits)
qed

section \<open>The run\<close>

lemma example_load: "load_graph example_fs (GraphFile 10 3 2 2) True = Inr example_graph"
  by code_simp

lemma example_total: "total_weight example_graph = Finite (9 / 2)"
  by code_simp

lemma load_graph_parse_all:
  "load_graph fs p weighted =
     (case fs p of
        None \<Rightarrow> Inl FileNotFoundError
      | Some ls \<Rightarrow>
          (case parse_all weighted ls of Inl e \<Rightarrow> Inl e | Inr es \<Rightarrow> Inr (add_edges [] es)))"
  by (simp add: load_graph_def read_lines_parse_all split: option.splits)

lemma shown_cuts_append: "shown_cuts (xs @ ys) = shown_cuts xs @ shown_cuts ys"
  by (induction xs rule: shown_cuts.induct) simp_all

lemma shown_cuts_report:
  "shown_cuts (concat (map (report W) energy_data)) = map (\<lambda>(s, E). cut_value W E) energy_data"
  by (induction energy_data) (auto simp: report_def shown_cuts_append)

text \<open>
  Claim C1. When the graph loads and the solver answers, the cut values that the run
  prints, one per returned sample and in the solver's order, are \<open>(W - energy) / 2\<close>
  with \<open>W\<close> the total edge weight of the loaded graph; and for \<open>W = 10\<close> and energy
  \<open>4\<close> the cut value is \<open>3\<close>.
\<close>
theorem cut_value_formula:
  assumes "load_graph fs (GraphFile N k seed seed) weighted = Inr G"
    and "solver (from_networkx_graph G) = Inr energy_data"
  shows "shown_cuts (console (run_solver fs solver N k seed weighted)) =
           map (\<lambda>(s, E). fhalf (fsub (total_weight G) E)) energy_data
         \<and> cut_value (Finite 10) (Finite 4) = Finite 3"
proof -
  have "shown_cuts (console (run_solver fs solver N k seed weighted)) =
          map (\<lambda>(s, E). cut_value (total_weight G) E) energy_data"
    using assms
    by (cases energy_data)
      (simp_all add: run_solver_def Let_def shown_cuts_append shown_cuts_report report_def
        split: prod.splits)
  moreover have "cut_value (Finite 10) (Finite 4) = Finite 3"
    by (simp add: cut_value_def fsub_def)
  ultimately show ?thesis
    by (simp add: cut_value_def)
qed

theorem cut_value_formula_witness:
  "shown_cuts (console (run_solver example_fs example_solver 10 3 2 True)) = [Finite (9 / 2)]"
proof -
  have s: "example_solver (from_networkx_graph example_graph) =
             Inr [(example_sample, Finite (- (9 / 2)))]"
    by (simp add: example_solver_def)
  from cut_value_formula [of example_fs 10 3 2 True example_graph example_solver, OF example_load s]
  show ?thesis
    by (simp add: example_total fsub_def)
qed


text \<open>
  Claim C2. When the solver returns at least one sample, the run writes the file of
  \<open>W\<close> and then the result record. The record holds exactly the eight fields
  \<^verbatim>\<open>N\<close>, \<^verbatim>\<open>k\<close>, \<^verbatim>\<open>seed\<close>, \<^verbatim>\<open>weighted\<close>, \<^verbatim>\<open>W\<close>, \<^verbatim>\<open>ising_energy\<close>, \<^verbatim>\<open>maxcut_value\<close>
  and \<^verbatim>\<open>method\<close>, in this order; its energy is that of the first sample, its cut
  value is \<open>(W - first energy) / 2\<close>, and its method is the constant \<^verbatim>\<open>AKMaxSAT\<close>.
\<close>
theorem record_from_first_sample:
  assumes "load_graph fs (GraphFile N k seed seed) weighted = Inr G"
    and "solver (from_networkx_graph G) = Inr ((sample, E) # rest)"
  shows "files (run_solver fs solver N k seed weighted) =
           [(SumweightsFile N k seed seed, Text (total_weight G)),
            (AkmaxdataFile N k seed seed weighted,
             Json [(''N'', JInt N),
                   (''k'', JInt k),
                   (''seed'', JInt seed),
                   (''weighted'', JBool weighted),
                   (''W'', JFloat (total_weight G)),
                   (''ising_energy'', JFloat E),
                   (''maxcut_value'', JFloat (fhalf (fsub (total_weight G) E))),
                   (''method'', JStr ''AKMaxSAT'')])]"
  using assms by (simp add: run_solver_def Let_def savedict_def cut_value_def)

theorem record_from_first_sample_witness:
  "files (run_solver example_fs example_solver 10 3 2 True) =
     [(SumweightsFile 10 3 2 2, Text (Finite (9 / 2))),
      (AkmaxdataFile 10 3 2 2 True,
       Json [(''N'', JInt 10),
             (''k'', JInt 3),
             (''seed'', JInt 2),
             (''weighted'', JBool True),
             (''W'', JFloat (Finite (9 / 2))),
             (''ising_energy'', JFloat (Finite (- (9 / 2)))),
             (''maxcut_value'', JFloat (Finite (9 / 2))),
             (''method'', JStr ''AKMaxSAT'')])]"
proof -
  have s: "example_solver (from_networkx_graph example_graph) =
             Inr ((example_sample, Finite (- (9 / 2))) # [])"
    by (simp add: example_solver_def)
  from record_from_first_sample
    [of example_fs 10 3 2 True example_graph example_solver, OF example_load s]
  show ?thesis
    by (simp add: example_total fsub_def)
qed

text \<open>
  Claim C6. When the solver returns no sample, the run returns without raising, the only
  file it writes is the one that holds \<open>W\<close>, and it prints that there is nothing to
  save.
\<close>
theorem empty_answer_is_reported:
  assumes "load_graph fs (GraphFile N k seed seed) weighted = Inr G"
    and "solver (from_networkx_graph G) = Inr []"
  shows "raised (run_solver fs solver N k seed weighted) = None
         \<and> files (run_solver fs solver N k seed weighted) =
             [(SumweightsFile N k seed seed, Text (total_weight G))]
         \<and> console (run_solver fs solver N k seed weighted) =
             [SavedW (total_weight G) (SumweightsFile N k seed seed), NumSamples 0, NothingToSave]"
  using assms by (simp add: run_solver_def Let_def)

theorem empty_answer_is_reported_witness:
  "raised (run_solver example_fs empty_solver 10 3 2 True) = None
   \<and> files (run_solver example_fs empty_solver 10 3 2 True) =
       [(SumweightsFile 10 3 2 2, Text (Finite (9 / 2)))]
   \<and> console (run_solver example_fs empty_solver 10 3 2 True) =
       [SavedW (Finite (9 / 2)) (SumweightsFile 10 3 2 2), NumSamples 0, NothingToSave]"
proof -
  have s: "empty_solver (from_networkx_graph example_graph) = Inr []"
    by (simp add: empty_solver_def)
  from empty_answer_is_reported
    [of example_fs 10 3 2 True example_graph empty_solver, OF example_load s]
  show ?thesis
    by (simp add: example_total)
qed

lemma report_in_console:
  assumes "load_graph fs (GraphFile N k seed seed) weighted = Inr G"
    and "solver (from_networkx_graph G) = Inr energy_data"
    and "se \<in> set energy_data"
  shows "set (report (total_weight G) se) \<subseteq> set (console (run_solver fs solver N k seed weighted))"
  using assms
  by (cases energy_data) (auto simp: run_solver_def Let_def split: prod.splits)

lemma run_returns:
  assumes "load_graph fs (GraphFile N k seed seed) weighted = Inr G"
    and "solver (from_networkx_graph G) = Inr energy_data"
  shows "raised (run_solver fs solver N k seed weighted) = None"
  using assms
  by (cases energy_data) (auto simp: run_solver_def Let_def split: prod.splits)

text \<open>
  Claim C4 says that a sample value outside \<open>{-1, +1}\<close> aborts the run. It does not:
  with node 0 at the value 0 the run returns normally, prints the partitions \<open>[2]\<close> and
  \<open>[1]\<close>, and writes both files.
\<close>
theorem stray_value_counterexample:
  "raised (run_solver example_fs stray_solver 10 3 2 True) = None
   \<and> ShowS0 [2] \<in> set (console (run_solver example_fs stray_solver 10 3 2 True))
   \<and> ShowS1 [1] \<in> set (console (run_solver example_fs stray_solver 10 3 2 True))
   \<and> map fst (files (run_solver example_fs stray_solver 10 3 2 True)) =
       [SumweightsFile 10 3 2 2, AkmaxdataFile 10 3 2 2 True]"
  by (simp add: run_solver_def Let_def example_load stray_solver_def stray_sample_def
      report_def S0_of_def S1_of_def)

text \<open>
  Claim C4, as the code has it. For every returned sample, \<open>S0\<close> holds exactly the nodes
  with spin \<open>-1\<close> and \<open>S1\<close> exactly the nodes with spin \<open>+1\<close>, so a node with any
  other value is in neither; both lists are printed, and the run returns without raising
  whatever the values are.
\<close>
theorem partition_rule:
  assumes "load_graph fs (GraphFile N k seed seed) weighted = Inr G"
    and "solver (from_networkx_graph G) = Inr energy_data"
    and "(sample, E) \<in> set energy_data"
  shows "set (S0_of sample) = {n. (n, - 1) \<in> set sample}
         \<and> set (S1_of sample) = {n. (n, 1) \<in> set sample}
         \<and> ShowS0 (S0_of sample) \<in> set (console (run_solver fs solver N k seed weighted))
         \<and> ShowS1 (S1_of sample) \<in> set (console (run_solver fs solver N k seed weighted))
         \<and> raised (run_solver fs solver N k seed weighted) = None"
proof -
  have "set (S0_of sample) = {n. (n, - 1) \<in> set sample}"
    by (auto simp: S0_of_def)
  moreover have "set (S1_of sample) = {n. (n, 1) \<in> set sample}"
    by (auto simp: S1_of_def)
  moreover have "ShowS0 (S0_of sample) \<in> set (report (total_weight G) (sample, E))"
    and "ShowS1 (S1_of sample) \<in> set (report (total_weight G) (sample, E))"
    by (simp_all add: report_def)
  moreover note
    report_in_console [of fs N k seed weighted G solver energy_data "(sample, E)", OF assms]
    run_returns [of fs N k seed weighted G solver energy_data, OF assms(1,2)]
  ultimately show ?thesis
    by blast
qed

theorem partition_rule_witness:
  "set (S0_of stray_sample) = {2} \<and> set (S1_of stray_sample) = {1}
   \<and> ShowS0 (S0_of stray_sample) \<in> set (console (run_solver example_fs stray_solver 10 3 2 True))
   \<and> raised (run_solver example_fs stray_solver 10 3 2 True) = None"
proof -
  have s: "stray_solver (from_networkx_graph example_graph) = Inr [(stray_sample, Finite 0)]"
    by (simp add: stray_solver_def)
  have m: "(stray_sample, Finite 0) \<in> set [(stray_sample, Finite 0)]"
    by simp
  have "set (S0_of stray_sample) = {2}" "set (S1_of stray_sample) = {1}"
    by (simp_all add: S0_of_def S1_of_def stray_sample_def)
  with partition_rule
    [of example_fs 10 3 2 True example_graph stray_solver _ stray_sample "Finite 0",
      OF example_load s m]
  show ?thesis
    by simp
qed

text \<open>
  Claim C8. For a sample (a dictionary, so no node occurs twice) whose values all lie in
  \<open>{-1, +1}\<close>, the two partitions together are the node set of the sample and they
  share no node.
\<close>
theorem partition_complete:
  assumes "distinct (map fst sample)"
    and "\<forall>(node, val) \<in> set sample. val = - 1 \<or> val = 1"
  shows "set (S0_of sample) \<union> set (S1_of sample) = fst ` set sample
         \<and> set (S0_of sample) \<inter> set (S1_of sample) = {}"
proof -
  have "set (S0_of sample) \<union> set (S1_of sample) = fst ` set sample"
    using assms(2) by (force simp: S0_of_def S1_of_def)
  moreover have "set (S0_of sample) \<inter> set (S1_of sample) = {}"
  proof -
    have False if "(n, - 1) \<in> set sample" "(n, 1) \<in> set sample" for n
    proof -
      from that assms(1) have "(- 1 :: int) = 1"
        by (meson eq_key_imp_eq_value)
      then show False by simp
    qed
    then show ?thesis
      by (auto simp: S0_of_def S1_of_def)
  qed
  ultimately show ?thesis ..
qed

theorem partition_complete_witness:
  "set (S0_of example_sample) \<union> set (S1_of example_sample) = {0, 1, 2}
   \<and> set (S0_of example_sample) \<inter> set (S1_of example_sample) = {}"
proof -
  have d: "distinct (map fst example_sample)"
    by (simp add: example_sample_def)
  have v: "\<forall>(node, val) \<in> set example_sample. val = - 1 \<or> val = 1"
    by (simp add: example_sample_def)
  have "fst ` set example_sample = {0, 1, 2}"
    by (auto simp: example_sample_def)
  with partition_complete [OF d v] show ?thesis
    by simp
qed

section \<open>Loading\<close>

lemma same_edge_upair: "same_edge a b e \<longleftrightarrow> upair e = {a, b}"
  by (cases e) (auto simp: same_edge_def upair_def doubleton_eq_iff)

lemma last_weight_SomeD:
  assumes "last_weight a b es = Some x"
  shows "\<exists>e\<in>set es. same_edge a b e \<and> snd (snd e) = x"
proof -
  from assms obtain y ys where f: "filter (same_edge a b) es = y # ys" and x: "x = snd (snd (last (y # ys)))"
    by (auto simp: last_weight_def split: list.splits)
  have "last (y # ys) \<in> set (filter (same_edge a b) es)"
    unfolding f by (rule last_in_set) simp
  with x show ?thesis
    by auto
qed

lemma last_weight_None_iff: "last_weight a b es = None \<longleftrightarrow> (\<forall>e\<in>set es. \<not> same_edge a b e)"
proof -
  have "last_weight a b es = None \<longleftrightarrow> filter (same_edge a b) es = []"
    by (simp add: last_weight_def split: list.splits)
  then show ?thesis
    by (simp add: filter_empty_conv)
qed

lemma wt_Nil: "wt [] a b = None"
  by (simp add: wt_def)

lemma wt_loaded: "wt (add_edges [] es) a b = last_weight a b es"
  by (cases "last_weight a b es") (simp_all add: wt_add_edges wt_Nil)

lemma wf_loaded: "wf_graph (add_edges [] es)"
  by (intro wf_add_edges wf_graph_Nil)

lemma edges_upairs: "upair ` set (edges (add_edges [] es)) = upair ` set es"
proof (intro set_eqI iffI)
  fix s
  assume "s \<in> upair ` set (edges (add_edges [] es))"
  then obtain a b x where e: "(a, b, x) \<in> set (edges (add_edges [] es))" and s: "s = {a, b}"
    by (auto simp: upair_def)
  from wf_edges_wt[OF wf_loaded e] have "last_weight a b es = Some x"
    by (simp add: wt_loaded)
  then obtain e' where "e' \<in> set es" "same_edge a b e'"
    by (blast dest: last_weight_SomeD)
  then show "s \<in> upair ` set es"
    unfolding s by (auto simp: same_edge_upair)
next
  fix s
  assume "s \<in> upair ` set es"
  then obtain e where e: "e \<in> set es" and s: "s = upair e"
    by blast
  obtain u v w where uvw: "e = (u, v, w)"
    by (cases e)
  have "same_edge u v e"
    by (simp add: same_edge_def uvw)
  with e have "last_weight u v es \<noteq> None"
    by (auto simp: last_weight_None_iff)
  then obtain x where "wt (add_edges [] es) u v = Some x"
    by (auto simp: wt_loaded)
  from wf_wt_edges[OF wf_loaded this] show "s \<in> upair ` set (edges (add_edges [] es))"
    unfolding s uvw by (force simp: upair_def insert_commute)
qed

lemma filter_unique:
  assumes "distinct (map f xs)" and "e \<in> set xs"
  shows "filter (\<lambda>x. f x = f e) xs = [e]"
  using assms
proof (induction xs)
  case Nil
  then show ?case by simp
next
  case (Cons y ys)
  show ?case
  proof (cases "y = e")
    case True
    with Cons.prems(1) have "filter (\<lambda>x. f x = f e) ys = []"
      by (auto simp: filter_empty_conv image_iff)
    with True show ?thesis by simp
  next
    case False
    with Cons.prems have "e \<in> set ys" "f y \<noteq> f e"
      by (auto simp: image_iff)
    with Cons show ?thesis by simp
  qed
qed




lemma parse_line_unweighted:
  assumes "split_comma (strip l) = [w, a, b]" and "py_int a = Some u" and "py_int b = Some v"
  shows "parse_line False l = Inr (u, v, Finite 1)"
  using assms by (simp add: parse_line_def)

lemma parse_line_unweighted_weight:
  "parse_line False l = Inr e \<Longrightarrow> snd (snd e) = Finite 1"
  by (auto simp: parse_line_def split: list.splits option.splits)

lemma parse_all_unweighted_weight:
  "parse_all False ls = Inr es \<Longrightarrow> \<forall>e\<in>set es. snd (snd e) = Finite 1"
proof (induction ls arbitrary: es)
  case Nil
  then show ?case by simp
next
  case (Cons l ls)
  from Cons.prems obtain e es' where h: "parse_line False l = Inr e" "parse_all False ls = Inr es'"
    and es: "es = e # es'"
    by (auto split: sum.splits)
  from h(1) have "snd (snd e) = Finite 1"
    by (rule parse_line_unweighted_weight)
  with Cons.IH[OF h(2)] show ?case
    unfolding es by simp
qed

lemma parse_all_unweighted_ok:
  assumes "\<forall>l\<in>set ls. \<exists>w a b. split_comma (strip l) = [w, a, b] \<and> py_int a \<noteq> None \<and> py_int b \<noteq> None"
  shows "\<exists>es. parse_all False ls = Inr es"
  using assms
proof (induction ls)
  case Nil
  then show ?case by simp
next
  case (Cons l ls)
  then obtain w a b u v where "split_comma (strip l) = [w, a, b]" "py_int a = Some u" "py_int b = Some v"
    by fastforce
  then have "parse_line False l = Inr (u, v, Finite 1)"
    by (rule parse_line_unweighted)
  moreover from Cons obtain es where "parse_all False ls = Inr es"
    by auto
  ultimately show ?case by simp
qed

lemma loaded_weights:
  assumes "\<forall>e\<in>set es. snd (snd e) = c"
  shows "\<forall>e\<in>set (edges (add_edges [] es)). snd (snd e) = c"
proof
  fix e
  assume e: "e \<in> set (edges (add_edges [] es))"
  obtain a b x where abx: "e = (a, b, x)"
    by (cases e)
  from wf_edges_wt[OF wf_loaded e[unfolded abx]] have "last_weight a b es = Some x"
    by (simp add: wt_loaded)
  with assms show "snd (snd e) = c"
    unfolding abx by (auto dest: last_weight_SomeD)
qed

lemma sum_of_ones:
  "\<forall>e\<in>set xs. snd (snd e) = Finite 1 \<Longrightarrow>
     foldl fadd (Finite a) (map (\<lambda>(u, v, w). w) xs) = Finite (a + of_nat (length xs))"
  by (induction xs arbitrary: a) (auto simp: algebra_simps)

lemma total_weight_ones:
  assumes "\<forall>e\<in>set (edges G). snd (snd e) = Finite 1"
  shows "total_weight G = Finite (of_nat (length (edges G)))"
  unfolding total_weight_def using sum_of_ones[OF assms, of 0] by simp

lemma length_edges_loaded: "length (edges (add_edges [] es)) = card (upair ` set es)"
proof -
  have "length (edges (add_edges [] es)) = length (map upair (edges (add_edges [] es)))"
    by simp
  also have "\<dots> = card (set (map upair (edges (add_edges [] es))))"
    using wf_edges_distinct[OF wf_loaded] by (rule distinct_card[symmetric])
  also have "\<dots> = card (upair ` set es)"
    by (simp add: edges_upairs)
  finally show ?thesis .
qed


text \<open>
  Claim C5. When \<^verbatim>\<open>weighted\<close> is false and the file loads, every edge of the graph has
  weight \<open>1.0\<close>, whatever the weight fields of the file say, so \<open>W\<close> is the number of
  edges of the graph, which is the number of distinct undirected edges that the lines
  name. For the three-line file of the scenario \<open>W\<close> is \<open>3.0\<close>.
\<close>
theorem unweighted_total_weight:
  assumes "fs p = Some ls" and "load_graph fs p False = Inr G"
  shows "(\<forall>e\<in>set (edges G). snd (snd e) = Finite 1)
         \<and> total_weight G = Finite (of_nat (length (edges G)))
         \<and> (\<exists>es. parse_all False ls = Inr es \<and> length (edges G) = card (upair ` set es))"
proof -
  from assms obtain es where es: "parse_all False ls = Inr es" and G: "G = add_edges [] es"
    by (auto simp: load_graph_parse_all split: sum.splits)
  have w: "\<forall>e\<in>set (edges G). snd (snd e) = Finite 1"
    unfolding G using parse_all_unweighted_weight[OF es] by (rule loaded_weights)
  moreover from w have "total_weight G = Finite (of_nat (length (edges G)))"
    by (rule total_weight_ones)
  moreover have "length (edges G) = card (upair ` set es)"
    unfolding G by (rule length_edges_loaded)
  ultimately show ?thesis
    using es by blast
qed

theorem unweighted_total_weight_witness:
  "load_graph example_fs (GraphFile 10 3 2 2) False =
     Inr [(0, [(1, Finite 1), (2, Finite 1)]),
          (1, [(0, Finite 1), (2, Finite 1)]),
          (2, [(1, Finite 1), (0, Finite 1)])]
   \<and> total_weight [(0, [(1, Finite 1), (2, Finite 1)]),
                    (1, [(0, Finite 1), (2, Finite 1)]),
                    (2, [(1, Finite 1), (0, Finite 1)])] = Finite 3"
proof -
  let ?G = "[(0, [(1, Finite 1), (2, Finite 1)]),
             (1, [(0, Finite 1), (2, Finite 1)]),
             (2, [(1, Finite 1), (0, Finite 1)])] :: graph"
  have f: "example_fs (GraphFile 10 3 2 2) = Some example_file"
    by (simp add: example_fs_def)
  have l: "load_graph example_fs (GraphFile 10 3 2 2) False = Inr ?G"
    by code_simp
  have n: "length (edges ?G) = 3"
    by code_simp
  from unweighted_total_weight [of example_fs "GraphFile 10 3 2 2" example_file ?G, OF f l] have "total_weight ?G = Finite (of_nat (length (edges ?G)))"
    by blast
  with l n show ?thesis
    by simp
qed

text \<open>
  Claim C9. When the file loads and some line names the edge between \<open>u\<close> and \<open>v\<close>,
  in either direction, the edges of the loaded graph hold that edge exactly once, with
  the weight of the last line that names it; and no two edges of the graph join the same
  pair of nodes.
\<close>
theorem last_line_wins:
  assumes "fs p = Some ls" and "parse_all weighted ls = Inr es" and "(u, v, w) \<in> set es"
  shows "\<exists>G x. load_graph fs p weighted = Inr G
           \<and> last_weight u v es = Some x
           \<and> (filter (same_edge u v) (edges G) = [(u, v, x)]
              \<or> filter (same_edge u v) (edges G) = [(v, u, x)])
           \<and> distinct (map upair (edges G))"
proof -
  let ?G = "add_edges [] es"
  have l: "load_graph fs p weighted = Inr ?G"
    using assms(1,2) by (simp add: load_graph_parse_all)
  have "same_edge u v (u, v, w)"
    by (simp add: same_edge_def)
  with assms(3) have "last_weight u v es \<noteq> None"
    by (auto simp: last_weight_None_iff)
  then obtain x where x: "last_weight u v es = Some x"
    by blast
  then have "wt ?G u v = Some x"
    by (simp add: wt_loaded)
  from wf_wt_edges[OF wf_loaded this]
  have m: "(u, v, x) \<in> set (edges ?G) \<or> (v, u, x) \<in> set (edges ?G)" .
  have d: "distinct (map upair (edges ?G))"
    by (rule wf_edges_distinct[OF wf_loaded])
  have s: "same_edge u v = (\<lambda>e. upair e = upair (u, v, x))"
    "same_edge u v = (\<lambda>e. upair e = upair (v, u, x))"
    by (intro ext; simp add: same_edge_upair upair_def insert_commute)+
  from m have "filter (same_edge u v) (edges ?G) = [(u, v, x)]
      \<or> filter (same_edge u v) (edges ?G) = [(v, u, x)]"
  proof
    assume "(u, v, x) \<in> set (edges ?G)"
    from filter_unique[OF d this] show ?thesis
      unfolding s(1) by simp
  next
    assume "(v, u, x) \<in> set (edges ?G)"
    from filter_unique[OF d this] show ?thesis
      unfolding s(2) by simp
  qed
  with l x d show ?thesis
    by blast
qed

theorem last_line_wins_witness:
  "load_graph twice_fs (GraphFile 10 3 2 2) True =
     Inr [(0, [(1, Finite (15 / 2))]),
          (1, [(0, Finite (15 / 2)), (2, Finite 2)]),
          (2, [(1, Finite 2)])]
   \<and> filter (same_edge 1 0)
        (edges [(0, [(1, Finite (15 / 2))]),
                (1, [(0, Finite (15 / 2)), (2, Finite 2)]),
                (2, [(1, Finite 2)])]) = [(0, 1, Finite (15 / 2))]"
proof -
  let ?G = "[(0, [(1, Finite (15 / 2))]),
             (1, [(0, Finite (15 / 2)), (2, Finite 2)]),
             (2, [(1, Finite 2)])] :: graph"
  let ?es = "[(0, 1, Finite 1), (1, 2, Finite 2), (1, 0, Finite (15 / 2))] :: (node \<times> node \<times> pyfloat) list"
  have f: "twice_fs (GraphFile 10 3 2 2) = Some twice_file"
    by (simp add: twice_fs_def)
  have e: "parse_all True twice_file = Inr ?es"
    by code_simp
  have m: "(1, 0, Finite (15 / 2)) \<in> set ?es"
    by simp
  have l: "load_graph twice_fs (GraphFile 10 3 2 2) True = Inr ?G"
    by code_simp
  have x: "last_weight 1 0 ?es = Some (Finite (15 / 2))"
    by code_simp
  have n: "filter (same_edge 1 0) (edges ?G) \<noteq> [(1, 0, Finite (15 / 2))]"
    by code_simp
  from last_line_wins
    [of twice_fs "GraphFile 10 3 2 2" twice_file True ?es 1 0 "Finite (15 / 2)", OF f e m] l x n
  show ?thesis
    by auto
qed

text \<open>
  \<^verbatim>\<open>line.strip()\<close> removes a separator character only at the ends of the line. Inside
  the line it stays in its field, where neither \<^verbatim>\<open>int\<close> nor \<^verbatim>\<open>float\<close> skips it: such a
  line is refused in both modes.
\<close>

lemma separator_field_refused:
  "py_int [CHR 0x1C, CHR ''0''] = None
   \<and> py_float (''1.0'' @ [CHR 0x1C]) = None
   \<and> parse_line True (''1.0,'' @ [CHR 0x1C] @ ''0,1'') = Inl IntValueError
   \<and> parse_line False (''abc,'' @ [CHR 0x1C] @ ''0,1'') = Inl IntValueError
   \<and> refused_line False (''abc,'' @ [CHR 0x1C] @ ''0,1'')"
  by code_simp




text \<open>
  Claim C10. When \<^verbatim>\<open>weighted\<close> is false, the weight field is never given to
  \<^verbatim>\<open>float\<close>: a file whose lines all have three fields and integer node fields loads,
  whatever the weight fields are, every line gives an edge, and every edge has weight
  \<open>1.0\<close>. So a line such as \<^verbatim>\<open>abc,0,1\<close> loads with weight \<open>1.0\<close>, where weighted mode
  raises.
\<close>
theorem unweighted_skips_float:
  assumes "fs p = Some ls"
    and "\<forall>l\<in>set ls. \<exists>w a b. split_comma (strip l) = [w, a, b] \<and> py_int a \<noteq> None \<and> py_int b \<noteq> None"
  shows "\<exists>G es. load_graph fs p False = Inr G
           \<and> parse_all False ls = Inr es
           \<and> length es = length ls
           \<and> (\<forall>e\<in>set es. snd (snd e) = Finite 1)
           \<and> (\<forall>e\<in>set (edges G). snd (snd e) = Finite 1)"
proof -
  from parse_all_unweighted_ok[OF assms(2)] obtain es where es: "parse_all False ls = Inr es"
    by blast
  then have "load_graph fs p False = Inr (add_edges [] es)"
    using assms(1) by (simp add: load_graph_parse_all)
  moreover have w: "\<forall>e\<in>set es. snd (snd e) = Finite 1"
    using es by (rule parse_all_unweighted_weight)
  moreover from w have "\<forall>e\<in>set (edges (add_edges [] es)). snd (snd e) = Finite 1"
    by (rule loaded_weights)
  moreover have "length es = length ls"
    using es by (induction ls arbitrary: es) (auto split: sum.splits)
  ultimately show ?thesis
    using es by blast
qed

theorem unweighted_skips_float_witness:
  "py_float ''abc'' = None
   \<and> load_graph odd_fs (GraphFile 10 3 2 2) True = Inl FloatValueError
   \<and> load_graph odd_fs (GraphFile 10 3 2 2) False = Inr [(0, [(1, Finite 1)]), (1, [(0, Finite 1)])]"
proof -
  have f: "odd_fs (GraphFile 10 3 2 2) = Some odd_file"
    by (simp add: odd_fs_def)
  have s: "split_comma (strip ''abc,0,1\<newline>'') = [''abc'', ''0'', ''1'']"
    by code_simp
  have i: "py_int ''0'' \<noteq> None" "py_int ''1'' \<noteq> None"
    by code_simp+
  have a: "\<forall>l\<in>set odd_file. \<exists>w a b. split_comma (strip l) = [w, a, b] \<and> py_int a \<noteq> None \<and> py_int b \<noteq> None"
    using s i by (simp add: odd_file_def)
  have n: "py_float ''abc'' = None"
    by code_simp
  have t: "load_graph odd_fs (GraphFile 10 3 2 2) True = Inl FloatValueError"
    by code_simp
  have e: "add_edges [] [(0, 1, Finite 1)] = [(0, [(1, Finite 1)]), (1, [(0, Finite 1)])]"
    by code_simp
  have p: "parse_all False odd_file = Inr [(0, 1, Finite 1)]"
    by code_simp
  from unweighted_skips_float [of odd_fs "GraphFile 10 3 2 2" odd_file, OF f a] obtain G where "load_graph odd_fs (GraphFile 10 3 2 2) False = Inr G"
    by blast
  moreover from this f p have "G = add_edges [] [(0, 1, Finite 1)]"
    by (simp add: load_graph_parse_all)
  ultimately show ?thesis
    using n t e by simp
qed

end
